theory Spec2Isabelle
  imports Complex_Main "HOL-Library.Log_Nat"
begin

section \<open>The heuristic scoring engine of \<^verbatim>\<open>fake_news_detector.py\<close>\<close>

text \<open>
  The development embeds \<^verbatim>\<open>detect_fake_news_mock\<close> (lines 124--163 of the source), the
  only function of the repository that decides anything, together with the Python string
  built-ins it calls.

  Modelling decisions.
  \<^item> A Python \<^verbatim>\<open>str\<close> is a sequence of code points. The model is a \<open>char list\<close> whose
    characters are read as the code points 0..255 (Latin-1); on this range the tables of
    \<^verbatim>\<open>str.isspace\<close>, \<^verbatim>\<open>str.isupper\<close>, \<^verbatim>\<open>str.islower\<close> and \<^verbatim>\<open>str.lower\<close> below are
    those of CPython. Code points above 255 are outside the model.
  \<^item> A Python \<^verbatim>\<open>float\<close> is modelled as an exact \<open>real\<close>: the literal \<^verbatim>\<open>0.08\<close> is the
    fraction 8/100, and \<open>+\<close>, \<open>-\<close>, \<open>*\<close>, \<open>/\<close> do not round.
    Where the rounding of the arithmetic decides a property (the size of the step per
    keyword), lines 137--149 are embedded a second time, in double precision: see
    \<open>raw_prob_real_f64\<close> below.
  \<^item> The only operation of the function that can raise is the true division of line 141;
    it returns a value of \<open>py_error + real\<close>, and so does everything that depends on it.
  \<^item> The returned tuple \<^verbatim>\<open>(prediction, prob_real, corrective_links)\<close> is a HOL triple;
    a link, a dict with the two keys \<^verbatim>\<open>title\<close> and \<^verbatim>\<open>url\<close>, is a record.
\<close>

subsection \<open>Python built-ins on characters and strings\<close>

datatype py_error = ZeroDivisionError

text \<open>\<^verbatim>\<open>a / b\<close> on two ints: true division, raising on a zero divisor.\<close>

definition py_truediv :: "int \<Rightarrow> int \<Rightarrow> py_error + real" where
  "py_truediv a b = (if b = 0 then Inl ZeroDivisionError else Inr (real_of_int a / real_of_int b))"

definition code_point :: "char \<Rightarrow> nat" where
  "code_point c = of_char c"

text \<open>\<^verbatim>\<open>str.isspace\<close> on one character: 9--13, 28--32, 133 and 160.\<close>

definition py_isspace :: "char \<Rightarrow> bool" where
  "py_isspace c =
     (let n = code_point c
      in (9 \<le> n \<and> n \<le> 13) \<or> (28 \<le> n \<and> n \<le> 32) \<or> n = 133 \<or> n = 160)"

text \<open>\<^verbatim>\<open>str.isupper\<close> on one character: A--Z, 192--214 and 216--222.\<close>

definition py_isupper_char :: "char \<Rightarrow> bool" where
  "py_isupper_char c =
     (let n = code_point c
      in (65 \<le> n \<and> n \<le> 90) \<or> (192 \<le> n \<and> n \<le> 214) \<or> (216 \<le> n \<and> n \<le> 222))"

text \<open>\<^verbatim>\<open>str.islower\<close> on one character: a--z, 170, 181, 186, 223--246 and 248--255.\<close>

definition py_islower_char :: "char \<Rightarrow> bool" where
  "py_islower_char c =
     (let n = code_point c
      in (97 \<le> n \<and> n \<le> 122) \<or> n = 170 \<or> n = 181 \<or> n = 186
         \<or> (223 \<le> n \<and> n \<le> 246) \<or> (248 \<le> n \<and> n \<le> 255))"

text \<open>\<^verbatim>\<open>str.lower\<close>: every uppercase character moves up by 32, the others stay.\<close>

definition py_lower_char :: "char \<Rightarrow> char" where
  "py_lower_char c = (if py_isupper_char c then char_of (code_point c + 32) else c)"

definition py_lower :: "string \<Rightarrow> string" where
  "py_lower s = map py_lower_char s"

text \<open>
  \<^verbatim>\<open>str.isupper\<close> on a string: no character is lowercase (or titlecase, of which there is
  none below 256) and at least one is uppercase.
\<close>

definition py_isupper :: "string \<Rightarrow> bool" where
  "py_isupper s = (\<not> list_ex py_islower_char s \<and> list_ex py_isupper_char s)"

text \<open>
  \<^verbatim>\<open>str.split()\<close> with no argument: the maximal runs of non-whitespace characters, in
  order. \<open>cur\<close> is the token being read.
\<close>

fun split_from :: "string \<Rightarrow> string \<Rightarrow> string list" where
  "split_from cur [] = (if cur = [] then [] else [cur])"
| "split_from cur (c # cs) =
     (if py_isspace c
      then (if cur = [] then split_from [] cs else cur # split_from [] cs)
      else split_from (cur @ [c]) cs)"

definition py_split :: "string \<Rightarrow> string list" where
  "py_split s = split_from [] s"

text \<open>\<^verbatim>\<open>sub in s\<close> on strings: \<open>sub\<close> is a contiguous part of \<open>s\<close>.\<close>

fun starts_with :: "string \<Rightarrow> string \<Rightarrow> bool" where
  "starts_with [] s = True"
| "starts_with (a # sub) [] = False"
| "starts_with (a # sub) (c # s) = (a = c \<and> starts_with sub s)"

fun py_in :: "string \<Rightarrow> string \<Rightarrow> bool" where
  "py_in sub [] = (sub = [])"
| "py_in sub (c # s) = (starts_with sub (c # s) \<or> py_in sub s)"

text \<open>\<^verbatim>\<open>sum(1 for x in xs if p(x))\<close>: one is added for every element that passes.\<close>

definition sum_ones :: "('a \<Rightarrow> bool) \<Rightarrow> 'a list \<Rightarrow> int" where
  "sum_ones p xs = sum_list (map (\<lambda>x. 1) (filter p xs))"

subsection \<open>The function\<close>

record link_ref =
  title :: string
  url :: string

type_synonym verdict = "int \<times> real \<times> link_ref list"

text \<open>The docstring's encoding of the prediction: 0 is fake news, 1 is real news.\<close>

abbreviation (input) FAKE :: int where "FAKE \<equiv> 0"
abbreviation (input) REAL :: int where "REAL \<equiv> 1"

text \<open>Line 132.\<close>

definition sensational_words :: "string list" where
  "sensational_words =
     [''shocking'', ''bombshell'', ''must-see'', ''disaster'', ''urgent alert'',
      ''massive cover-up'', ''secretly'', ''experts agree'', ''share this immediately'',
      ''reveals all'', ''exposed'', ''scandal'', ''breaking now'', ''lie'', ''fraud'']"

text \<open>Line 133.\<close>

definition sensational_count :: "string \<Rightarrow> int" where
  "sensational_count text = sum_ones (\<lambda>word. py_in word (py_lower text)) sensational_words"

text \<open>Line 134.\<close>

definition all_caps_words :: "string \<Rightarrow> int" where
  "all_caps_words text = sum_ones (\<lambda>word. py_isupper word \<and> length word > 2) (py_split text)"

text \<open>Line 135.\<close>

definition word_count :: "string \<Rightarrow> int" where
  "word_count text = int (length (py_split text))"

text \<open>
  Lines 137--147: the value of \<^verbatim>\<open>prob_real\<close> before it is clamped, from the three
  features. \<^verbatim>\<open>caps_ratio\<close> is bound, and the division made, only under the guard of
  line 140.
\<close>

definition raw_prob_real :: "int \<Rightarrow> int \<Rightarrow> int \<Rightarrow> py_error + real" where
  "raw_prob_real sens caps words =
     (let prob_real = 0.5;
          prob_real = prob_real - (real_of_int sens * 0.08)
      in case (if words > 0
               then (case py_truediv caps words of
                       Inl e \<Rightarrow> Inl e
                     | Inr caps_ratio \<Rightarrow> Inr (prob_real - (caps_ratio * 0.3)))
               else Inr prob_real) of
           Inl e \<Rightarrow> Inl e
         | Inr prob_real \<Rightarrow>
             Inr (if words < 100 then prob_real - 0.15
                  else if words > 300 then prob_real + 0.10
                  else prob_real))"

text \<open>Line 149.\<close>

definition clamp_prob :: "real \<Rightarrow> real" where
  "clamp_prob prob_real = max 0.05 (min 0.95 prob_real)"

text \<open>Lines 157--161.\<close>

definition mock_links :: "link_ref list" where
  "mock_links =
     [\<lparr>title = ''Fact-Check: Separating Science from Misinformation (Science Journal)'',
       url = ''https://trustedscience.org/fact-check''\<rparr>,
      \<lparr>title = ''Official Statement on Economic Outlook (Federal Reserve)'',
       url = ''https://federalreserve.gov/latest-reports''\<rparr>,
      \<lparr>title = ''Understanding Clickbait Language: A Guide to Media Literacy'',
       url = ''https://medialiteracy.org/clickbait-guide''\<rparr>]"

text \<open>Lines 150--163: the prediction and the links, from the clamped \<^verbatim>\<open>prob_real\<close>.\<close>

definition verdict_of :: "real \<Rightarrow> verdict" where
  "verdict_of prob_real =
     (let prediction = (if prob_real \<ge> 0.5 then 1 else 0);
          corrective_links = (if prediction = 0 then mock_links else [])
      in (prediction, prob_real, corrective_links))"

text \<open>Lines 124--163. \<^verbatim>\<open>not text\<close> holds of the empty string only.\<close>

definition detect_fake_news_mock :: "string \<Rightarrow> py_error + verdict" where
  "detect_fake_news_mock text =
     (if text = [] then Inr (0, 0.5, [])
      else case raw_prob_real (sensational_count text) (all_caps_words text) (word_count text) of
             Inl e \<Rightarrow> Inl e
           | Inr prob_real \<Rightarrow> Inr (verdict_of (clamp_prob prob_real)))"

subsection \<open>The scoring arithmetic in double precision\<close>

text \<open>
  A double is modelled by its exact value, a rational number, and every arithmetic
  operation by the exact operation followed by rounding to the nearest double, ties to
  the even significand (the IEEE 754 default, which CPython uses for \<open>+\<close>, \<open>-\<close>, \<open>*\<close>, for
  the true division of two ints, for the conversion of an int and for reading a literal).
  The exponent range of a double is not modelled: the rounding is that of a double as
  long as no operation overflows or underflows, which none does on the features the
  function can compute (a sensational count from 0 to 15 and a caps count from 0 to the
  word count, itself below \<open>2 ^ 63\<close>, the bound on the length of a Python string).
\<close>

text \<open>The integer nearest to \<open>t\<close>; of two equally near ones, the even one.\<close>

definition rne :: "rat \<Rightarrow> int" where
  "rne t =
     (let f = \<lfloor>t\<rfloor>; d = t - of_int f
      in if d < 1 / 2 then f else if 1 / 2 < d then f + 1 else if even f then f else f + 1)"

text \<open>The binary exponent of a positive \<open>x\<close>: the \<open>e\<close> with \<open>2 powi e \<le> x < 2 powi (e + 1)\<close>.\<close>

definition expo :: "rat \<Rightarrow> int" where
  "expo x = (if 1 \<le> x then bitlen \<lfloor>x\<rfloor> - 1 else - bitlen (\<lceil>1 / x\<rceil> - 1))"

text \<open>
  Rounding to 53 significant bits: \<open>x\<close> is rounded to the nearest multiple of the unit in
  the last place of its binade.
\<close>

definition round_f64 :: "rat \<Rightarrow> rat" where
  "round_f64 x =
     (if x = 0 then 0
      else let ulp = 2 powi (expo \<bar>x\<bar> - 52) in of_int (rne (x / ulp)) * ulp)"

text \<open>\<^verbatim>\<open>a / b\<close> on two ints, in double precision: the correctly rounded quotient.\<close>

definition f64_truediv :: "int \<Rightarrow> int \<Rightarrow> py_error + rat" where
  "f64_truediv a b =
     (if b = 0 then Inl ZeroDivisionError else Inr (round_f64 (of_int a / of_int b)))"

text \<open>
  Lines 137--147 in double precision. Each literal is the double nearest to the decimal
  written in the source, \<^verbatim>\<open>sensational_count * 0.08\<close> converts the int to a double and
  multiplies, and each \<^verbatim>\<open>-=\<close> and \<^verbatim>\<open>+=\<close> rounds its result.
\<close>

definition raw_prob_real_f64 :: "int \<Rightarrow> int \<Rightarrow> int \<Rightarrow> py_error + rat" where
  "raw_prob_real_f64 sens caps words =
     (let prob_real = round_f64 0.5;
          prob_real = round_f64 (prob_real - round_f64 (round_f64 (of_int sens) * round_f64 0.08))
      in case (if words > 0
               then (case f64_truediv caps words of
                       Inl e \<Rightarrow> Inl e
                     | Inr caps_ratio \<Rightarrow>
                         Inr (round_f64 (prob_real - round_f64 (caps_ratio * round_f64 0.3))))
               else Inr prob_real) of
           Inl e \<Rightarrow> Inl e
         | Inr prob_real \<Rightarrow>
             Inr (if words < 100 then round_f64 (prob_real - round_f64 0.15)
                  else if words > 300 then round_f64 (prob_real + round_f64 0.10)
                  else prob_real))"

text \<open>Line 149 in double precision.\<close>

definition clamp_prob_f64 :: "rat \<Rightarrow> rat" where
  "clamp_prob_f64 prob_real = max (round_f64 0.05) (min (round_f64 0.95) prob_real)"

subsection \<open>The vocabulary of the specification\<close>

text \<open>
  The definitions of this subsection follow the words of the specification, not the
  source; the theorems below compare them with the function.
\<close>

text \<open>
  A keyword occurs in a text as a case-insensitive substring: some contiguous part of the
  text agrees with it letter by letter, up to case.
\<close>

definition same_letter :: "char \<Rightarrow> char \<Rightarrow> bool" where
  "same_letter a b = (py_lower_char a = py_lower_char b)"

fun ci_starts_with :: "string \<Rightarrow> string \<Rightarrow> bool" where
  "ci_starts_with [] s = True"
| "ci_starts_with (a # kw) [] = False"
| "ci_starts_with (a # kw) (c # s) = (same_letter a c \<and> ci_starts_with kw s)"

fun ci_occurs_in :: "string \<Rightarrow> string \<Rightarrow> bool" where
  "ci_occurs_in kw [] = (kw = [])"
| "ci_occurs_in kw (c # s) = (ci_starts_with kw (c # s) \<or> ci_occurs_in kw s)"

text \<open>The keyword table of section 6 of the specification.\<close>

definition KeywordTable :: "string list" where
  "KeywordTable =
     [''shocking'', ''bombshell'', ''must-see'', ''disaster'', ''urgent alert'',
      ''massive cover-up'', ''secretly'', ''experts agree'', ''share this immediately'',
      ''reveals all'', ''exposed'', ''scandal'', ''breaking now'', ''lie'', ''fraud'']"


text \<open>
  The caps ratio of section 4.1: the number of all-caps tokens over the word count, or 0
  when the word count is 0.
\<close>

definition spec_capsRatio :: "int \<Rightarrow> int \<Rightarrow> real" where
  "spec_capsRatio capsTokens wordCount =
     (if wordCount = 0 then 0 else real_of_int capsTokens / real_of_int wordCount)"


text \<open>
  The all-caps token of section 4.1, as it is worded: every character is an uppercase
  letter, a digit or a punctuation mark, and the token is longer than two characters.
\<close>

definition is_digit :: "char \<Rightarrow> bool" where
  "is_digit c = (let n = code_point c in 48 \<le> n \<and> n \<le> 57)"

definition is_punctuation :: "char \<Rightarrow> bool" where
  "is_punctuation c =
     (let n = code_point c
      in (33 \<le> n \<and> n \<le> 47) \<or> (58 \<le> n \<and> n \<le> 64) \<or> (91 \<le> n \<and> n \<le> 96)
         \<or> (123 \<le> n \<and> n \<le> 126))"

definition spec_caps_token :: "string \<Rightarrow> bool" where
  "spec_caps_token w =
     (list_all (\<lambda>c. py_isupper_char c \<or> is_digit c \<or> is_punctuation c) w \<and> length w > 2)"

definition spec_capsRatio_of :: "string \<Rightarrow> real" where
  "spec_capsRatio_of text =
     spec_capsRatio (int (length (filter spec_caps_token (py_split text)))) (word_count text)"

text \<open>
  A token with at least one uppercase letter, no lowercase letter and more than two
  characters.
\<close>

definition upper_token :: "string \<Rightarrow> bool" where
  "upper_token w =
     (list_ex py_isupper_char w \<and> list_all (\<lambda>c. \<not> py_islower_char c) w \<and> length w > 2)"

text \<open>The invariant of section 3: the links are non-empty exactly for the label FAKE.\<close>

definition links_iff_fake :: "verdict \<Rightarrow> bool" where
  "links_iff_fake v = (case v of (label, p, links) \<Rightarrow> (links \<noteq> []) = (label = FAKE))"

subsection \<open>Auxiliary facts\<close>

lemma sum_ones_length: "sum_ones p xs = int (length (filter p xs))"
  unfolding sum_ones_def by (induction xs) simp_all

lemma raw_prob_real_value:
  "raw_prob_real sens caps words =
     Inr (0.5 - real_of_int sens * 0.08
          - (if words > 0 then real_of_int caps / real_of_int words * 0.3 else 0)
          + (if words < 100 then - 0.15 else if words > 300 then 0.10 else 0))"
  by (simp add: raw_prob_real_def py_truediv_def Let_def)

lemma clamp_prob_lower: "0.05 \<le> clamp_prob p"
  by (simp add: clamp_prob_def)

lemma clamp_prob_upper: "clamp_prob p \<le> 0.95"
  by (simp add: clamp_prob_def)

lemma detect_empty: "detect_fake_news_mock [] = Inr (FAKE, 0.5, [])"
  by (simp add: detect_fake_news_mock_def)

lemma detect_nonempty:
  assumes "text \<noteq> []"
  shows "\<exists>r. raw_prob_real (sensational_count text) (all_caps_words text) (word_count text) = Inr r
           \<and> detect_fake_news_mock text = Inr (verdict_of (clamp_prob r))"
  using assms by (simp add: detect_fake_news_mock_def raw_prob_real_value)

lemma verdict_of_cases:
  "verdict_of p = (if p \<ge> 0.5 then (REAL, p, []) else (FAKE, p, mock_links))"
  by (simp add: verdict_of_def Let_def)

lemma mock_links_nonempty: "mock_links \<noteq> []"
  by (simp add: mock_links_def)


lemma starts_with_lower:
  "map py_lower_char kw = kw \<Longrightarrow> starts_with kw (map py_lower_char s) = ci_starts_with kw s"
proof (induction kw s rule: ci_starts_with.induct)
  case (3 a kw c s)
  then have "py_lower_char a = a" and "map py_lower_char kw = kw" by simp_all
  with 3 show ?case by (simp add: same_letter_def)
qed simp_all

lemma py_in_lower:
  "map py_lower_char kw = kw \<Longrightarrow> py_in kw (py_lower s) = ci_occurs_in kw s"
proof (induction s)
  case Nil
  then show ?case by (simp add: py_lower_def)
next
  case (Cons c s)
  from Cons.prems have "starts_with kw (map py_lower_char (c # s)) = ci_starts_with kw (c # s)"
    by (rule starts_with_lower)
  with Cons show ?case by (simp add: py_lower_def)
qed

lemma sensational_words_lower:
  "list_all (\<lambda>kw. map py_lower_char kw = kw) sensational_words"
  by code_simp

lemma starts_with_set: "starts_with sub s \<Longrightarrow> set sub \<subseteq> set s"
  by (induction sub s rule: starts_with.induct) auto

lemma py_in_set: "py_in sub s \<Longrightarrow> set sub \<subseteq> set s"
proof (induction s)
  case Nil
  then show ?case by simp
next
  case (Cons c s)
  from Cons.prems have "starts_with sub (c # s) \<or> py_in sub s" by simp
  then show ?case
  proof
    assume "starts_with sub (c # s)"
    then show ?thesis by (rule starts_with_set)
  next
    assume "py_in sub s"
    then have "set sub \<subseteq> set s" by (rule Cons.IH)
    then show ?thesis by auto
  qed
qed

lemma space_not_upper: "py_isspace c \<Longrightarrow> \<not> py_isupper_char c"
  by (auto simp: py_isspace_def py_isupper_char_def Let_def)

lemma lower_spaces: "list_all py_isspace s \<Longrightarrow> py_lower s = s"
  by (induction s) (simp_all add: py_lower_def py_lower_char_def space_not_upper)

lemma split_spaces: "list_all py_isspace s \<Longrightarrow> split_from [] s = []"
  by (induction s) simp_all

lemma sensational_words_visible:
  "list_all (\<lambda>kw. list_ex (\<lambda>c. \<not> py_isspace c) kw) sensational_words"
  by code_simp

lemma sensational_count_spaces:
  assumes "list_all py_isspace s"
  shows "sensational_count s = 0"
proof -
  have "\<not> py_in kw (py_lower s)" if "kw \<in> set sensational_words" for kw
  proof
    assume "py_in kw (py_lower s)"
    then have "set kw \<subseteq> set s" using assms by (auto dest: py_in_set simp: lower_spaces)
    moreover from that obtain c where "c \<in> set kw" "\<not> py_isspace c"
      using sensational_words_visible by (auto simp: list_all_iff list_ex_iff)
    ultimately show False using assms by (auto simp: list_all_iff)
  qed
  then have "filter (\<lambda>kw. py_in kw (py_lower s)) sensational_words = []"
    by (simp add: filter_empty_conv)
  then show ?thesis by (simp add: sensational_count_def sum_ones_length)
qed


lemma sensational_count_ci:
  "sensational_count text = int (length (filter (\<lambda>kw. ci_occurs_in kw text) sensational_words))"
proof -
  have "filter (\<lambda>kw. py_in kw (py_lower text)) sensational_words
        = filter (\<lambda>kw. ci_occurs_in kw text) sensational_words"
    using sensational_words_lower
    by (intro filter_cong refl) (simp add: list_all_iff py_in_lower)
  then show ?thesis by (simp add: sensational_count_def sum_ones_length)
qed



lemma upper_token_isupper: "upper_token w = (py_isupper w \<and> length w > 2)"
  by (auto simp: upper_token_def py_isupper_def list_all_iff list_ex_iff)

lemma all_caps_words_upper:
  "all_caps_words text = int (length (filter upper_token (py_split text)))"
proof -
  have "filter (\<lambda>word. py_isupper word \<and> length word > 2) (py_split text)
        = filter upper_token (py_split text)"
    by (intro filter_cong refl) (simp add: upper_token_isupper)
  then show ?thesis by (simp add: all_caps_words_def sum_ones_length)
qed

lemma ci_starts_with_letters:
  "ci_starts_with kw s \<Longrightarrow> list_all (\<lambda>a. list_ex (same_letter a) s) kw"
  by (induction kw s rule: ci_starts_with.induct) (auto simp: list_all_iff list_ex_iff)

lemma ci_occurs_in_letters:
  "ci_occurs_in kw s \<Longrightarrow> list_all (\<lambda>a. list_ex (same_letter a) s) kw"
proof (induction s)
  case Nil
  then show ?case by simp
next
  case (Cons c s)
  from Cons.prems have "ci_starts_with kw (c # s) \<or> ci_occurs_in kw s" by simp
  then show ?case
  proof
    assume "ci_starts_with kw (c # s)"
    then show ?thesis by (rule ci_starts_with_letters)
  next
    assume "ci_occurs_in kw s"
    then have "list_all (\<lambda>a. list_ex (same_letter a) s) kw" by (rule Cons.IH)
    then show ?thesis by (auto simp: list_all_iff list_ex_iff)
  qed
qed

lemma split_from_token:
  assumes "list_all (\<lambda>c. \<not> py_isspace c) w"
  shows "split_from cur (w @ s) = split_from (cur @ w) s"
  using assms by (induction w arbitrary: cur) simp_all

lemma split_repeated_token:
  assumes "list_all (\<lambda>c. \<not> py_isspace c) w" and "w \<noteq> []" and "py_isspace d"
  shows "py_split (concat (replicate n (w @ [d]))) = replicate n w"
proof (induction n)
  case 0
  show ?case by (simp add: py_split_def)
next
  case (Suc n)
  have "split_from [] (w @ d # concat (replicate n (w @ [d])))
        = split_from w (d # concat (replicate n (w @ [d])))"
    using split_from_token [OF assms(1), of "[]"] by simp
  with assms(2,3) Suc show ?case by (simp add: py_split_def)
qed

text \<open>Rounding to the nearest double is monotone.\<close>

lemma rne_of_int: "rne (of_int k) = k"
  by (simp add: rne_def)

lemma rne_bounds: "\<lfloor>t\<rfloor> \<le> rne t \<and> rne t \<le> \<lfloor>t\<rfloor> + 1"
  by (simp add: rne_def Let_def)

lemma rne_mono:
  assumes "s \<le> t"
  shows "rne s \<le> rne t"
proof (cases "\<lfloor>s\<rfloor> = \<lfloor>t\<rfloor>")
  case True
  with assms have "s - of_int \<lfloor>s\<rfloor> \<le> t - of_int \<lfloor>t\<rfloor>" by simp
  with True show ?thesis by (auto simp: rne_def Let_def)
next
  case False
  with assms have "\<lfloor>s\<rfloor> < \<lfloor>t\<rfloor>" using floor_mono [of s t] by simp
  with rne_bounds [of s] rne_bounds [of t] show ?thesis by linarith
qed

lemma rne_minus: "rne (- t) = - rne t"
proof (cases "t = of_int \<lfloor>t\<rfloor>")
  case True
  then obtain k where "t = of_int k" ..
  then have "- t = of_int (- k)" by simp
  with \<open>t = of_int k\<close> show ?thesis by (simp only: rne_of_int)
next
  case False
  then have fl: "\<lfloor>- t\<rfloor> = - \<lfloor>t\<rfloor> - 1"
    by (metis ceiling_altdef ceiling_def add_diff_cancel_right' minus_diff_eq diff_minus_eq_add
        minus_add_distrib uminus_add_conv_diff)
  show ?thesis
    by (auto simp: rne_def Let_def fl algebra_simps)
qed

lemma expo_bounds_ge1:
  assumes "1 \<le> x"
  shows "2 powi expo x \<le> x \<and> x < 2 powi (expo x + 1)"
proof -
  define k where "k = bitlen \<lfloor>x\<rfloor>"
  from assms have pos: "0 < \<lfloor>x\<rfloor>" by simp
  then have b: "2 ^ nat (k - 1) \<le> \<lfloor>x\<rfloor>" "\<lfloor>x\<rfloor> < 2 ^ nat k"
    using bitlen_bounds [of "\<lfloor>x\<rfloor>"] by (simp_all add: k_def)
  from pos have k1: "1 \<le> k" using bitlen_eq_zero_iff [of "\<lfloor>x\<rfloor>"] bitlen_nonneg [of "\<lfloor>x\<rfloor>"]
    by (simp add: k_def) 
  from b(1) have "(of_int (2 ^ nat (k - 1)) :: rat) \<le> of_int \<lfloor>x\<rfloor>" by (simp only: of_int_le_iff)
  also have "\<dots> \<le> x" by simp
  finally have lo: "(2::rat) ^ nat (k - 1) \<le> x" by simp
  from b(2) have "\<lfloor>x\<rfloor> + 1 \<le> 2 ^ nat k" by simp
  then have "(of_int (\<lfloor>x\<rfloor> + 1) :: rat) \<le> of_int (2 ^ nat k)" by (simp only: of_int_le_iff)
  moreover have "x < of_int (\<lfloor>x\<rfloor> + 1)" by linarith
  ultimately have hi: "x < (2::rat) ^ nat k" by simp
  from k1 have "(2::rat) powi (k - 1) = 2 ^ nat (k - 1)" "(2::rat) powi k = 2 ^ nat k"
    by (simp_all add: power_int_def)
  with lo hi assms show ?thesis by (simp add: expo_def k_def)
qed

lemma expo_bounds_lt1:
  assumes "0 < x" "x < 1"
  shows "2 powi expo x \<le> x \<and> x < 2 powi (expo x + 1)"
proof -
  define y where "y = 1 / x"
  define c where "c = \<lceil>y\<rceil>"
  define j where "j = bitlen (c - 1)"
  from assms have y1: "1 < y" by (simp add: y_def)
  then have c2: "2 \<le> c" unfolding c_def by linarith
  then have b: "2 ^ nat (j - 1) \<le> c - 1" "c - 1 < 2 ^ nat j"
    using bitlen_bounds [of "c - 1"] by (simp_all add: j_def)
  from c2 have j1: "1 \<le> j" using bitlen_eq_zero_iff [of "c - 1"] bitlen_nonneg [of "c - 1"]
    by (simp add: j_def)
  from b(2) have "c \<le> 2 ^ nat j" by simp
  then have "(of_int c :: rat) \<le> of_int (2 ^ nat j)" by (simp only: of_int_le_iff)
  then have "(of_int c :: rat) \<le> 2 ^ nat j" by simp
  moreover have "y \<le> of_int c" by (simp add: c_def)
  ultimately have yhi: "y \<le> 2 ^ nat j" by linarith
  from b(1) have "(of_int (2 ^ nat (j - 1)) :: rat) \<le> of_int (c - 1)" by (simp only: of_int_le_iff)
  then have "(2::rat) ^ nat (j - 1) \<le> of_int (c - 1)" by simp
  moreover have "of_int (c - 1) < y" unfolding c_def by linarith
  ultimately have ylo: "2 ^ nat (j - 1) < y" by linarith
  from yhi assms(1) have lo: "1 / 2 ^ nat j \<le> x"
    by (simp add: y_def field_simps)
  from ylo assms(1) have hi: "x < 1 / 2 ^ nat (j - 1)"
    by (simp add: y_def field_simps)
  from j1 have "(2::rat) powi (- j) = 1 / 2 ^ nat j" "(2::rat) powi (- j + 1) = 1 / 2 ^ nat (j - 1)"
    by (simp_all add: power_int_def field_simps) 
  with lo hi assms show ?thesis by (simp add: expo_def j_def c_def y_def)
qed

lemma expo_bounds:
  assumes "0 < x"
  shows "2 powi expo x \<le> x \<and> x < 2 powi (expo x + 1)"
  using assms expo_bounds_ge1 [of x] expo_bounds_lt1 [of x] by (cases "1 \<le> x") simp_all

lemma round_f64_minus: "round_f64 (- x) = - round_f64 x"
  by (simp add: round_f64_def Let_def rne_minus)

lemma round_f64_pos_bounds:
  assumes "0 < x"
  shows "2 powi expo x \<le> round_f64 x \<and> round_f64 x \<le> 2 powi (expo x + 1)"
proof -
  define e where "e = expo x"
  define u :: rat where "u = 2 powi (e - 52)"
  have u: "0 < u" by (simp add: u_def)
  have lo: "2 powi e = 2 ^ 52 * u" and hi: "2 powi (e + 1) = 2 ^ 53 * u"
    by (simp_all add: u_def power_int_diff power_int_add)
  from assms have b: "2 powi e \<le> x" "x < 2 powi (e + 1)"
    using expo_bounds [of x] by (simp_all add: e_def)
  from b(1) u have "of_int (2 ^ 52) \<le> x / u" by (simp add: lo field_simps)
  then have "rne (of_int (2 ^ 52)) \<le> rne (x / u)" by (rule rne_mono)
  then have "2 ^ 52 \<le> rne (x / u)" by (simp only: rne_of_int)
  then have "(of_int (2 ^ 52) :: rat) \<le> of_int (rne (x / u))" by (simp only: of_int_le_iff)
  then have "2 ^ 52 * u \<le> of_int (rne (x / u)) * u" using u by simp
  moreover
  from b(2) have "x \<le> 2 ^ 53 * u" by (simp only: hi)
  with u have "x / u \<le> of_int (2 ^ 53)" by (simp add: field_simps)
  then have "rne (x / u) \<le> rne (of_int (2 ^ 53))" by (rule rne_mono)
  then have "rne (x / u) \<le> 2 ^ 53" by (simp only: rne_of_int)
  then have "(of_int (rne (x / u)) :: rat) \<le> of_int (2 ^ 53)" by (simp only: of_int_le_iff)
  then have "of_int (rne (x / u)) * u \<le> 2 ^ 53 * u" using u by simp
  moreover from assms have "round_f64 x = of_int (rne (x / u)) * u"
    by (simp add: round_f64_def Let_def u_def e_def)
  ultimately show ?thesis by (simp add: lo hi e_def [symmetric])
qed

lemma round_f64_mono_pos:
  assumes "0 < x" "x \<le> y"
  shows "round_f64 x \<le> round_f64 y"
proof -
  from assms have y: "0 < y" by simp
  have le: "expo x \<le> expo y"
  proof (rule ccontr)
    assume "\<not> expo x \<le> expo y"
    then have "expo y + 1 \<le> expo x" by simp
    then have "(2::rat) powi (expo y + 1) \<le> 2 powi expo x"
      by (intro power_int_increasing) simp_all
    also have "\<dots> \<le> x" using expo_bounds [OF assms(1)] by simp
    also have "\<dots> \<le> y" by fact
    also have "\<dots> < 2 powi (expo y + 1)" using expo_bounds [OF y] by simp
    finally show False by simp
  qed
  show ?thesis
  proof (cases "expo x = expo y")
    case True
    define u :: rat where "u = 2 powi (expo y - 52)"
    have u: "0 < u" by (simp add: u_def)
    from assms(2) u have "x / u \<le> y / u" by (simp add: divide_right_mono)
    then have "rne (x / u) \<le> rne (y / u)" by (rule rne_mono)
    then have "(of_int (rne (x / u)) :: rat) * u \<le> of_int (rne (y / u)) * u"
      using u by simp
    with assms(1) y True show ?thesis by (simp add: round_f64_def Let_def u_def)
  next
    case False
    with le have "expo x + 1 \<le> expo y" by simp
    then have "(2::rat) powi (expo x + 1) \<le> 2 powi expo y"
      by (intro power_int_increasing) simp_all
    with round_f64_pos_bounds [OF assms(1)] round_f64_pos_bounds [OF y] show ?thesis
      by linarith
  qed
qed

lemma round_f64_nonneg: "0 \<le> x \<Longrightarrow> 0 \<le> round_f64 x"
proof (cases "x = 0")
  case True
  then show ?thesis by (simp add: round_f64_def)
next
  case False
  assume "0 \<le> x"
  with False have "0 < x" by simp
  from round_f64_pos_bounds [OF this] have "2 powi expo x \<le> round_f64 x" by simp
  moreover have "(0::rat) < 2 powi expo x" by simp
  ultimately show ?thesis by linarith
qed

lemma round_f64_mono:
  assumes "x \<le> y"
  shows "round_f64 x \<le> round_f64 y"
proof -
  consider "0 < x" | "x \<le> 0" "0 \<le> y" | "y < 0" by linarith
  then show ?thesis
  proof cases
    case 1
    then show ?thesis using assms by (rule round_f64_mono_pos)
  next
    case 2
    from 2(1) have "0 \<le> round_f64 (- x)" by (intro round_f64_nonneg) simp
    then have "round_f64 x \<le> 0" by (simp add: round_f64_minus)
    moreover from 2(2) have "0 \<le> round_f64 y" by (rule round_f64_nonneg)
    ultimately show ?thesis by linarith
  next
    case 3
    with assms have "0 < - y" "- y \<le> - x" by simp_all
    then have "round_f64 (- y) \<le> round_f64 (- x)" by (rule round_f64_mono_pos)
    then show ?thesis by (simp add: round_f64_minus)
  qed
qed

lemma clamp_prob_f64_mono: "p \<le> q \<Longrightarrow> clamp_prob_f64 p \<le> clamp_prob_f64 q"
  by (simp add: clamp_prob_f64_def max_def min_def)

lemma raw_prob_real_f64_value:
  "raw_prob_real_f64 sens caps words =
     Inr (let p1 = round_f64 (round_f64 0.5 - round_f64 (round_f64 (of_int sens) * round_f64 0.08));
              p2 = (if words > 0
                    then round_f64 (p1 - round_f64 (round_f64 (of_int caps / of_int words)
                                                    * round_f64 0.3))
                    else p1)
          in if words < 100 then round_f64 (p2 - round_f64 0.15)
             else if words > 300 then round_f64 (p2 + round_f64 0.10)
             else p2)"
  by (simp add: raw_prob_real_f64_def f64_truediv_def Let_def)

lemma raw_prob_real_f64_antimono:
  assumes "n \<le> m"
  shows "\<exists>r r'. raw_prob_real_f64 n caps words = Inr r \<and> raw_prob_real_f64 m caps words = Inr r'
           \<and> r' \<le> r"
proof -
  define t where "t k = round_f64 (round_f64 (of_int k) * round_f64 0.08)" for k :: int
  define p1 where "p1 k = round_f64 (round_f64 0.5 - t k)" for k
  define p2 where "p2 k = (if words > 0
                    then round_f64 (p1 k - round_f64 (round_f64 (of_int caps / of_int words)
                                                      * round_f64 0.3))
                    else p1 k)" for k
  define p3 where "p3 k = (if words < 100 then round_f64 (p2 k - round_f64 0.15)
             else if words > 300 then round_f64 (p2 k + round_f64 0.10)
             else p2 k)" for k
  have raw: "raw_prob_real_f64 k caps words = Inr (p3 k)" for k
    by (simp add: raw_prob_real_f64_value p3_def p2_def p1_def t_def Let_def)
  have c: "0 \<le> round_f64 0.08" by (rule round_f64_nonneg) simp
  from assms have "round_f64 (of_int n) \<le> round_f64 (of_int m)"
    by (intro round_f64_mono) simp
  then have "round_f64 (of_int n) * round_f64 0.08 \<le> round_f64 (of_int m) * round_f64 0.08"
    using c by (rule mult_right_mono)
  then have "t n \<le> t m" unfolding t_def by (rule round_f64_mono)
  then have "p1 m \<le> p1 n" unfolding p1_def by (intro round_f64_mono) simp
  then have "p2 m \<le> p2 n" unfolding p2_def by (auto intro!: round_f64_mono)
  then have "p3 m \<le> p3 n" unfolding p3_def by (auto intro!: round_f64_mono)
  with raw show ?thesis by blast
qed

lemma raw_prob_real_f64_at_1: "raw_prob_real_f64 1 1 10 = Inr (8646911284551353 / 2 ^ 55)"
  by code_simp

lemma raw_prob_real_f64_at_2: "raw_prob_real_f64 2 1 10 = Inr (5764607523034233 / 2 ^ 55)"
  by code_simp

lemma raw_prob_real_f64_at_3: "raw_prob_real_f64 3 1 10 = Inr (1441151880758559 / 2 ^ 54)"
  by code_simp

subsection \<open>The claims\<close>

text \<open>
  Claim C1, amended. For the empty text the function returns the verdict FAKE, 0.5, no
  links, before any feature is extracted. A non-empty text of whitespace characters only
  is not short-circuited: it is scored like any other text and gives FAKE, 0.35 and the
  three links. The claim as stated, which has the short-circuit on whitespace-only texts
  too, fails on the text of one space.
\<close>
theorem score_empty_text:
  "detect_fake_news_mock [] = Inr (FAKE, 0.5, [])
   \<and> (text \<noteq> [] \<and> list_all py_isspace text
        \<longrightarrow> detect_fake_news_mock text = Inr (FAKE, 0.35, mock_links))"
proof -
  have "detect_fake_news_mock text = Inr (FAKE, 0.35, mock_links)"
    if ne: "text \<noteq> []" and sp: "list_all py_isspace text"
  proof -
    from sp have "sensational_count text = 0" by (rule sensational_count_spaces)
    moreover from sp have "py_split text = []" by (simp add: py_split_def split_spaces)
    then have "word_count text = 0" and "all_caps_words text = 0"
      by (simp_all add: word_count_def all_caps_words_def sum_ones_length)
    ultimately show ?thesis
      using ne by (simp add: detect_fake_news_mock_def raw_prob_real_value clamp_prob_def
          verdict_of_cases)
  qed
  then show ?thesis by (simp add: detect_empty)
qed

theorem score_empty_text_witness:
  "[CHR '' '', CHR 0x09, CHR 0x0A] \<noteq> [] \<and> list_all py_isspace [CHR '' '', CHR 0x09, CHR 0x0A]
   \<and> detect_fake_news_mock [CHR '' '', CHR 0x09, CHR 0x0A] = Inr (FAKE, 0.35, mock_links)"
proof -
  have "list_all py_isspace [CHR '' '', CHR 0x09, CHR 0x0A]" by code_simp
  then show ?thesis
    using score_empty_text [of "[CHR '' '', CHR 0x09, CHR 0x0A]"] by simp
qed

theorem score_whitespace_only_counterexample:
  "list_all py_isspace '' '' \<and> detect_fake_news_mock '' '' \<noteq> Inr (FAKE, 0.5, [])"
proof -
  have "list_all py_isspace '' ''" by code_simp
  moreover have "detect_fake_news_mock '' '' = Inr (FAKE, 0.35, mock_links)" by code_simp
  ultimately show ?thesis by simp
qed

text \<open>
  Claim C2, amended. For every non-empty text the returned links are non-empty exactly when
  the label is FAKE; for the empty text the label is FAKE and the links are empty; and for
  every text, links that are non-empty are the fixed list of three entries in its fixed
  order. The claim as stated, for every text, fails on the empty text.
\<close>
theorem links_iff_fake_nonempty:
  "\<exists>label p links. detect_fake_news_mock text = Inr (label, p, links)
     \<and> (text \<noteq> [] \<longrightarrow> (links \<noteq> []) = (label = FAKE))
     \<and> (text = [] \<longrightarrow> label = FAKE \<and> links = [])
     \<and> (links \<noteq> [] \<longrightarrow>
          links =
            [\<lparr>title = ''Fact-Check: Separating Science from Misinformation (Science Journal)'',
              url = ''https://trustedscience.org/fact-check''\<rparr>,
             \<lparr>title = ''Official Statement on Economic Outlook (Federal Reserve)'',
              url = ''https://federalreserve.gov/latest-reports''\<rparr>,
             \<lparr>title = ''Understanding Clickbait Language: A Guide to Media Literacy'',
              url = ''https://medialiteracy.org/clickbait-guide''\<rparr>])"
proof (cases "text = []")
  case True
  then have "detect_fake_news_mock text = Inr (FAKE, 0.5, []) \<and> text = []"
    by (simp add: detect_empty)
  then show ?thesis by blast
next
  case False
  then obtain r where "detect_fake_news_mock text = Inr (verdict_of (clamp_prob r))"
    using detect_nonempty by blast
  with False show ?thesis
    using mock_links_nonempty by (simp add: verdict_of_cases) (simp add: mock_links_def)
qed

theorem links_iff_fake_nonempty_witness:
  "''Scandal!'' \<noteq> []
   \<and> (\<exists>label p links. detect_fake_news_mock ''Scandal!'' = Inr (label, p, links)
         \<and> label = FAKE \<and> links \<noteq> [] \<and> length links = 3)"
proof -
  have ev: "detect_fake_news_mock ''Scandal!'' = Inr (FAKE, 0.27, mock_links)" by code_simp
  obtain label p links where
    v: "detect_fake_news_mock ''Scandal!'' = Inr (label, p, links)" and
    iff: "''Scandal!'' \<noteq> [] \<longrightarrow> (links \<noteq> []) = (label = FAKE)" and
    tab: "links \<noteq> [] \<longrightarrow> length links = 3"
    using links_iff_fake_nonempty [of "''Scandal!''"] by fastforce
  from v ev have "label = FAKE" by simp
  with iff have "links \<noteq> []" by simp
  with tab have "length links = 3" by simp
  with v \<open>label = FAKE\<close> \<open>links \<noteq> []\<close> show ?thesis by blast
qed

theorem links_iff_fake_counterexample:
  "detect_fake_news_mock [] = Inr (FAKE, 0.5, []) \<and> \<not> links_iff_fake (FAKE, 0.5, [])"
  by (simp add: detect_empty links_iff_fake_def)

text \<open>
  Claim C3. For every input text, the empty one included, the function returns a verdict,
  and its \<^verbatim>\<open>prob_real\<close> lies in the closed interval from 0.05 to 0.95.
\<close>
theorem probability_in_range:
  "\<exists>label p links. detect_fake_news_mock text = Inr (label, p, links) \<and> 0.05 \<le> p \<and> p \<le> 0.95"
proof (cases "text = []")
  case True
  then have "detect_fake_news_mock text = Inr (FAKE, 0.5, []) \<and> (0.05::real) \<le> 0.5
             \<and> (0.5::real) \<le> 0.95"
    by (simp add: detect_empty)
  then show ?thesis by blast
next
  case False
  then obtain r where "detect_fake_news_mock text = Inr (verdict_of (clamp_prob r))"
    using detect_nonempty by blast
  then show ?thesis
    using clamp_prob_lower [of r] clamp_prob_upper [of r] by (simp add: verdict_of_cases)
qed

text \<open>
  Claim C4. The returned label is REAL or FAKE. For every non-empty text it is REAL exactly
  when the returned \<^verbatim>\<open>prob_real\<close> is at least 0.5; the one exception is the short-circuit
  on the empty text, which returns FAKE at exactly 0.5.
\<close>
theorem label_iff_threshold:
  "\<exists>label p links. detect_fake_news_mock text = Inr (label, p, links)
     \<and> (label = REAL \<or> label = FAKE)
     \<and> (text \<noteq> [] \<longrightarrow> (label = REAL) = (p \<ge> 0.5))
     \<and> (text = [] \<longrightarrow> label = FAKE \<and> p = 0.5)"
proof (cases "text = []")
  case True
  then have "detect_fake_news_mock text = Inr (FAKE, 0.5, []) \<and> text = []"
    by (simp add: detect_empty)
  then show ?thesis by blast
next
  case False
  then obtain r where "detect_fake_news_mock text = Inr (verdict_of (clamp_prob r))"
    using detect_nonempty by blast
  with False show ?thesis by (simp add: verdict_of_cases)
qed

theorem label_iff_threshold_witness:
  "''Breaking now'' \<noteq> []
   \<and> (\<exists>label p links. detect_fake_news_mock ''Breaking now'' = Inr (label, p, links)
         \<and> (label = REAL) = (p \<ge> 0.5))
   \<and> (\<exists>label p links. detect_fake_news_mock [] = Inr (label, p, links)
         \<and> label = FAKE \<and> p = 0.5)"
proof -
  have "''Breaking now'' \<noteq> []" by simp
  moreover from label_iff_threshold [of "''Breaking now''"] calculation
  have "\<exists>label p links. detect_fake_news_mock ''Breaking now'' = Inr (label, p, links)
          \<and> (label = REAL) = (p \<ge> 0.5)"
    by blast
  moreover from label_iff_threshold [of "[]"]
  have "\<exists>label p links. detect_fake_news_mock [] = Inr (label, p, links)
          \<and> label = FAKE \<and> p = 0.5"
    by blast
  ultimately show ?thesis by blast
qed




text \<open>
  Claim C7, amended. The caps count is the number of whitespace-delimited tokens that have
  at least one uppercase letter, no lowercase letter and more than two characters; the word
  count is the number of tokens. When the word count is positive the caps ratio is the
  quotient of the two; when it is zero no division is made and nothing is subtracted for
  the caps ratio. The claim as stated counts every token of uppercase letters, digits and
  punctuation, and fails on the token \<^verbatim>\<open>5.25%\<close>, which has no letter at all.
\<close>
theorem caps_ratio_isupper:
  "all_caps_words text = int (length (filter upper_token (py_split text)))
   \<and> word_count text = int (length (py_split text))
   \<and> (word_count text > 0 \<longrightarrow>
        py_truediv (all_caps_words text) (word_count text)
        = Inr (real (length (filter upper_token (py_split text))) / real (length (py_split text))))
   \<and> (word_count text = 0 \<longrightarrow>
        raw_prob_real sens (all_caps_words text) (word_count text)
        = Inr (0.5 - real_of_int sens * 0.08 - 0.15))"
proof -
  have caps: "all_caps_words text = int (length (filter upper_token (py_split text)))"
    by (rule all_caps_words_upper)
  have words: "word_count text = int (length (py_split text))"
    by (simp add: word_count_def)
  have ratio: "py_truediv (all_caps_words text) (word_count text)
               = Inr (real (length (filter upper_token (py_split text)))
                      / real (length (py_split text)))"
    if "word_count text > 0"
    using that by (simp add: py_truediv_def caps words)
  have none: "raw_prob_real sens (all_caps_words text) (word_count text)
              = Inr (0.5 - real_of_int sens * 0.08 - 0.15)"
    if "word_count text = 0"
    using that by (simp add: raw_prob_real_value)
  from caps words ratio none show ?thesis by blast
qed

theorem caps_ratio_isupper_witness:
  "word_count ''URGENT: act NOW'' > 0
   \<and> py_truediv (all_caps_words ''URGENT: act NOW'') (word_count ''URGENT: act NOW'') = Inr (2 / 3)
   \<and> word_count '' '' = 0
   \<and> raw_prob_real 2 (all_caps_words '' '') (word_count '' '') = Inr 0.19"
proof -
  have a: "word_count ''URGENT: act NOW'' > 0" by code_simp
  have b: "word_count '' '' = 0" by code_simp
  have c: "length (filter upper_token (py_split ''URGENT: act NOW'')) = 2" by code_simp
  have d: "length (py_split ''URGENT: act NOW'') = 3" by code_simp
  from caps_ratio_isupper [of "''URGENT: act NOW''" 2] a
  have "py_truediv (all_caps_words ''URGENT: act NOW'') (word_count ''URGENT: act NOW'')
        = Inr (real (length (filter upper_token (py_split ''URGENT: act NOW'')))
               / real (length (py_split ''URGENT: act NOW'')))"
    by blast
  with c d have e: "py_truediv (all_caps_words ''URGENT: act NOW'') (word_count ''URGENT: act NOW'')
                    = Inr (2 / 3)"
    by simp
  from caps_ratio_isupper [of "'' ''" 2] b
  have "raw_prob_real 2 (all_caps_words '' '') (word_count '' '')
        = Inr (0.5 - real_of_int 2 * 0.08 - 0.15)"
    by blast
  then have f: "raw_prob_real 2 (all_caps_words '' '') (word_count '' '') = Inr 0.19"
    by simp
  from a b e f show ?thesis by blast
qed

theorem caps_ratio_no_letter_counterexample:
  "py_truediv (all_caps_words ''5.25%'') (word_count ''5.25%'') = Inr 0
   \<and> spec_capsRatio_of ''5.25%'' = 1"
  by code_simp

text \<open>
  Claim C8. The function is total: every input string gives a verdict triple and none
  gives an error. The caps-ratio division is made only under the guard \<^verbatim>\<open>word_count > 0\<close>:
  the scoring arithmetic returns a value for all feature values, in particular for a word
  count of zero, where the division itself would raise.
\<close>
theorem score_total:
  "(\<exists>prediction prob_real links. detect_fake_news_mock text = Inr (prediction, prob_real, links))
   \<and> (\<exists>r. raw_prob_real sens caps words = Inr r)
   \<and> raw_prob_real sens caps 0 = Inr (0.5 - real_of_int sens * 0.08 - 0.15)
   \<and> py_truediv caps 0 = Inl ZeroDivisionError"
proof -
  have "\<exists>prediction prob_real links. detect_fake_news_mock text = Inr (prediction, prob_real, links)"
  proof (cases "text = []")
    case True
    then have "detect_fake_news_mock text = Inr (FAKE, 0.5, [])" by (simp add: detect_empty)
    then show ?thesis by blast
  next
    case False
    then obtain r where "detect_fake_news_mock text = Inr (verdict_of (clamp_prob r))"
      using detect_nonempty by blast
    then show ?thesis by (simp add: verdict_of_cases)
  qed
  moreover have "\<exists>r. raw_prob_real sens caps words = Inr r"
    by (simp add: raw_prob_real_value)
  moreover have "raw_prob_real sens caps 0 = Inr (0.5 - real_of_int sens * 0.08 - 0.15)"
    by (simp add: raw_prob_real_value)
  moreover have "py_truediv caps 0 = Inl ZeroDivisionError"
    by (simp add: py_truediv_def)
  ultimately show ?thesis by blast
qed

text \<open>
  Claim C9. A text of more than 300 whitespace-delimited tokens, in which no phrase of the
  keyword table occurs as a case-insensitive substring and no token longer than two
  characters is all-caps, is given the probability 0.5 + 0.10 = 0.60, the label REAL and
  no links.
\<close>
theorem long_plain_article:
  assumes "word_count text > 300"
    and "\<not> list_ex (\<lambda>kw. ci_occurs_in kw text) KeywordTable"
    and "\<not> list_ex (\<lambda>w. py_isupper w \<and> length w > 2) (py_split text)"
  shows "detect_fake_news_mock text = Inr (REAL, 0.6, [])"
proof -
  from assms(1) have ne: "text \<noteq> []"
    by (auto simp: word_count_def py_split_def)
  from assms(2) have "filter (\<lambda>kw. ci_occurs_in kw text) sensational_words = []"
    by (simp add: filter_empty_conv list_ex_iff sensational_words_def KeywordTable_def)
  then have sens: "sensational_count text = 0"
    by (simp add: sensational_count_ci)
  from assms(3) have "filter (\<lambda>w. py_isupper w \<and> length w > 2) (py_split text) = []"
    by (simp add: filter_empty_conv list_ex_iff)
  then have caps: "all_caps_words text = 0"
    by (simp add: all_caps_words_def sum_ones_length)
  from ne assms(1) sens caps show ?thesis
    by (simp add: detect_fake_news_mock_def raw_prob_real_value clamp_prob_def verdict_of_cases)
qed

theorem long_plain_article_witness:
  "word_count (concat (replicate 350 ''news '')) > 300
   \<and> \<not> list_ex (\<lambda>kw. ci_occurs_in kw (concat (replicate 350 ''news ''))) KeywordTable
   \<and> \<not> list_ex (\<lambda>w. py_isupper w \<and> length w > 2) (py_split (concat (replicate 350 ''news '')))
   \<and> detect_fake_news_mock (concat (replicate 350 ''news '')) = Inr (REAL, 0.6, [])"
proof -
  have "list_all (\<lambda>c. \<not> py_isspace c) ''news''" and "py_isspace CHR '' ''"
    by code_simp+
  then have "py_split (concat (replicate 350 (''news'' @ [CHR '' '']))) = replicate 350 ''news''"
    by (intro split_repeated_token) simp_all
  then have tokens: "py_split (concat (replicate 350 ''news '')) = replicate 350 ''news''"
    by simp
  have a: "word_count (concat (replicate 350 ''news '')) > 300"
    by (simp add: word_count_def tokens)
  have "\<not> py_isupper ''news''" by code_simp
  then have c: "\<not> list_ex (\<lambda>w. py_isupper w \<and> length w > 2)
              (py_split (concat (replicate 350 ''news '')))"
    by (simp add: tokens list_ex_iff)
  have other: "list_all (\<lambda>kw. list_ex (\<lambda>a. \<not> list_ex (same_letter a) ''news '') kw) KeywordTable"
    by code_simp
  have b: "\<not> list_ex (\<lambda>kw. ci_occurs_in kw (concat (replicate 350 ''news ''))) KeywordTable"
  proof
    assume "list_ex (\<lambda>kw. ci_occurs_in kw (concat (replicate 350 ''news ''))) KeywordTable"
    then obtain kw where kw: "kw \<in> set KeywordTable"
      and "ci_occurs_in kw (concat (replicate 350 ''news ''))"
      by (auto simp: list_ex_iff)
    then have "list_all (\<lambda>a. list_ex (same_letter a) (concat (replicate 350 ''news ''))) kw"
      by (intro ci_occurs_in_letters)
    then have "list_all (\<lambda>a. list_ex (same_letter a) ''news '') kw"
      by (auto simp: list_all_iff list_ex_iff)
    moreover from other kw obtain a where "a \<in> set kw" "\<not> list_ex (same_letter a) ''news ''"
      by (auto simp: list_all_iff list_ex_iff)
    ultimately show False by (auto simp: list_all_iff)
  qed
  from a b c long_plain_article [OF a b c] show ?thesis by blast
qed

text \<open>
  Claim C10, amended. For a fixed caps count and word count, on the features the function
  can compute, the value before the clamp and the clamped probability, as the code
  computes them in double precision, do not increase when the sensational count grows.
  The step per keyword is not exactly 0.08: the product \<^verbatim>\<open>sensational_count * 0.08\<close> and
  every subtraction are rounded. At a caps count of 1 and a word count of 10 the values
  before the clamp for 1, 2 and 3 keywords are 0.24000000000000002, 0.15999999999999995
  and 0.08000000000000002; their two steps differ from 0.08 and from each other.
\<close>
theorem monotone_in_sensational_count_f64:
  assumes "0 \<le> n" and "n \<le> m" and "m \<le> 15"
    and "0 \<le> caps" and "caps \<le> words" and "words < 2 ^ 63"
  shows "\<exists>r r'. raw_prob_real_f64 n caps words = Inr r \<and> raw_prob_real_f64 m caps words = Inr r'
           \<and> r' \<le> r \<and> clamp_prob_f64 r' \<le> clamp_prob_f64 r"
proof -
  from assms(2) obtain r r' where
    "raw_prob_real_f64 n caps words = Inr r" "raw_prob_real_f64 m caps words = Inr r'" "r' \<le> r"
    using raw_prob_real_f64_antimono by blast
  moreover from \<open>r' \<le> r\<close> have "clamp_prob_f64 r' \<le> clamp_prob_f64 r"
    by (rule clamp_prob_f64_mono)
  ultimately show ?thesis by blast
qed

theorem monotone_in_sensational_count_f64_witness:
  "(0::int) \<le> 1 \<and> (1::int) \<le> 3 \<and> (3::int) \<le> 15 \<and> (0::int) \<le> 1 \<and> (1::int) \<le> 10
   \<and> (10::int) < 2 ^ 63
   \<and> raw_prob_real_f64 1 1 10 = Inr (8646911284551353 / 2 ^ 55)
   \<and> raw_prob_real_f64 3 1 10 = Inr (1441151880758559 / 2 ^ 54)
   \<and> (1441151880758559 / 2 ^ 54 :: rat) \<le> 8646911284551353 / 2 ^ 55
   \<and> clamp_prob_f64 (1441151880758559 / 2 ^ 54) \<le> clamp_prob_f64 (8646911284551353 / 2 ^ 55)"
proof -
  obtain r r' where
    r: "raw_prob_real_f64 1 1 10 = Inr r" and r': "raw_prob_real_f64 3 1 10 = Inr r'" and
    le: "r' \<le> r" "clamp_prob_f64 r' \<le> clamp_prob_f64 r"
    using monotone_in_sensational_count_f64 [of 1 3 1 10] by auto
  from r have req: "r = 8646911284551353 / 2 ^ 55"
    unfolding raw_prob_real_f64_at_1 by (simp only: sum.inject)
  from r' have req': "r' = 1441151880758559 / 2 ^ 54"
    unfolding raw_prob_real_f64_at_3 by (simp only: sum.inject)
  note bounds = le [unfolded req req']
  have "(0::int) \<le> 1 \<and> (1::int) \<le> 3 \<and> (3::int) \<le> 15 \<and> (0::int) \<le> 1 \<and> (1::int) \<le> 10
        \<and> (10::int) < 2 ^ 63"
    by simp
  with bounds raw_prob_real_f64_at_1 raw_prob_real_f64_at_3 show ?thesis by blast
qed

theorem exact_step_counterexample:
  "raw_prob_real_f64 1 1 10 = Inr (8646911284551353 / 2 ^ 55)
   \<and> raw_prob_real_f64 2 1 10 = Inr (5764607523034233 / 2 ^ 55)
   \<and> raw_prob_real_f64 3 1 10 = Inr (1441151880758559 / 2 ^ 54)
   \<and> (8646911284551353 / 2 ^ 55 - 5764607523034233 / 2 ^ 55 :: rat) \<noteq> 0.08
   \<and> round_f64 (8646911284551353 / 2 ^ 55 - 5764607523034233 / 2 ^ 55) \<noteq> round_f64 0.08
   \<and> (8646911284551353 / 2 ^ 55 - 5764607523034233 / 2 ^ 55 :: rat)
       \<noteq> 5764607523034233 / 2 ^ 55 - 1441151880758559 / 2 ^ 54"
proof -
  have "(8646911284551353 / 2 ^ 55 - 5764607523034233 / 2 ^ 55 :: rat) \<noteq> 0.08"
    by simp
  moreover have "round_f64 (8646911284551353 / 2 ^ 55 - 5764607523034233 / 2 ^ 55)
                 \<noteq> round_f64 0.08"
    by code_simp
  moreover have "(8646911284551353 / 2 ^ 55 - 5764607523034233 / 2 ^ 55 :: rat)
       \<noteq> 5764607523034233 / 2 ^ 55 - 1441151880758559 / 2 ^ 54"
    by simp
  ultimately show ?thesis
    using raw_prob_real_f64_at_1 raw_prob_real_f64_at_2 raw_prob_real_f64_at_3 by blast
qed

end
